theory Spec2Isabelle
  imports Main "HOL-Library.AList" "HOL-Library.Char_ord" "HOL-Library.List_Lexorder"
begin

section \<open>The evaluation session of mteb/evaluation/MTEB.py\<close>

text \<open>
  The class \<open>MTEB\<close> discovers the task implementations, selects some of them, loads
  their data and runs a model over their evaluation splits, writing one JSON file per
  task. Tasks and the model are collaborators: a task is an object with a descriptor,
  a \<open>save_suffix\<close>, and two methods, \<open>load_data\<close> and \<open>evaluate\<close>, that may raise and
  may change state of their own. That state is the type variable \<open>'st\<close>; the methods read
  and write nothing else, in particular not the output folder. The model \<open>'m\<close>, the
  keyword arguments \<open>'k\<close> of \<open>run\<close> and the value \<open>'r\<close> returned by \<open>evaluate\<close> are
  opaque. Console output and the verbosity of the \<open>datasets\<close> logger are not modelled.
\<close>

subsection \<open>Data\<close>

datatype error =
    Raised string
  | FileExistsError string
  | IsADirectoryError string

record description =
  name :: string
  type :: string
  category :: string
  version :: int
  eval_splits :: "string list"

record ('m, 'k, 'r, 'st) task =
  description :: description
  save_suffix :: string
  load_data :: "'st \<Rightarrow> error option \<times> 'st"
  evaluate :: "'m \<Rightarrow> string \<Rightarrow> 'k \<Rightarrow> 'st \<Rightarrow> (error + 'r) \<times> 'st"

text \<open>
  An element of the \<open>tasks\<close> argument is a string, an instance of \<open>AbsTask\<close>, or any
  other object. A string is equal to no task instance and to no other object.
\<close>

datatype ('m, 'k, 'r, 'st) task_ref =
    ByName string
  | ByInstance "('m, 'k, 'r, 'st) task"
  | OtherObject

fun isinstance_AbsTask :: "('m, 'k, 'r, 'st) task_ref \<Rightarrow> bool" where
  "isinstance_AbsTask (ByInstance t) = True"
| "isinstance_AbsTask _ = False"

fun the_instance :: "('m, 'k, 'r, 'st) task_ref \<Rightarrow> ('m, 'k, 'r, 'st) task option" where
  "the_instance (ByInstance t) = Some t"
| "the_instance _ = None"

subsection \<open>select_tasks\<close>

text \<open>
  \<open>tasks_cls\<close> is the list of instances that discovery produced (lines 65-71 of the
  source). The explicit list wins over the three filters; the branch is taken when the
  list \<open>is not None\<close>.
\<close>

definition filter_task_list ::
  "('m, 'k, 'r, 'st) task_ref list \<Rightarrow> ('m, 'k, 'r, 'st) task \<Rightarrow> bool" where
  "filter_task_list ts = (\<lambda>x. ByName (name (description x)) \<in> set ts)"

definition filter_task_type :: "string list option \<Rightarrow> ('m, 'k, 'r, 'st) task \<Rightarrow> bool" where
  "filter_task_type task_types =
     (\<lambda>x. task_types = None \<or> type (description x) \<in> set (the task_types))"

definition filter_task_category :: "string list option \<Rightarrow> ('m, 'k, 'r, 'st) task \<Rightarrow> bool" where
  "filter_task_category task_categories =
     (\<lambda>x. task_categories = None \<or> category (description x) \<in> set (the task_categories))"

definition filter_version :: "int option \<Rightarrow> ('m, 'k, 'r, 'st) task \<Rightarrow> bool" where
  "filter_version ver = (\<lambda>x. ver = None \<or> version (description x) \<ge> the ver)"

definition select_tasks ::
  "string list option \<Rightarrow> string list option \<Rightarrow> int option \<Rightarrow>
   ('m, 'k, 'r, 'st) task_ref list option \<Rightarrow>
   ('m, 'k, 'r, 'st) task list \<Rightarrow> ('m, 'k, 'r, 'st) task list" where
  "select_tasks task_types task_categories ver tasks_arg tasks_cls =
     (case tasks_arg of
        Some ts \<Rightarrow>
          filter (filter_task_list ts) tasks_cls
          @ List.map_filter the_instance (filter isinstance_AbsTask ts)
      | None \<Rightarrow>
          filter (filter_version ver)
            (filter (filter_task_category task_categories)
              (filter (filter_task_type task_types) tasks_cls)))"

subsection \<open>Discovery and construction\<close>

text \<open>
  Discovery walks the class hierarchy: the direct subclasses of \<open>AbsTask\<close>, and for each
  of them whose \<open>__name__\<close> starts with \<open>AbsTask\<close> its direct subclasses, which are
  called with the keyword arguments of the constructor. A class is its constructor here;
  it may raise, which ends the construction of the session.
\<close>

type_synonym ('c, 'm, 'k, 'r, 'st) task_class =
  "'c \<Rightarrow> 'st \<Rightarrow> (error + ('m, 'k, 'r, 'st) task) \<times> 'st"

record ('c, 'm, 'k, 'r, 'st) category_class =
  cls_name :: string
  cls_subclasses :: "('c, 'm, 'k, 'r, 'st) task_class list"

definition startswith :: "string \<Rightarrow> string \<Rightarrow> bool" where
  "startswith s p = (take (length p) s = p)"

fun instantiate ::
  "'c \<Rightarrow> ('c, 'm, 'k, 'r, 'st) task_class list \<Rightarrow> 'st \<Rightarrow>
   (error + ('m, 'k, 'r, 'st) task list) \<times> 'st" where
  "instantiate kwargs [] s = (Inr [], s)"
| "instantiate kwargs (cls # rest) s =
     (case cls kwargs s of
        (Inl e, s') \<Rightarrow> (Inl e, s')
      | (Inr t, s') \<Rightarrow>
          (case instantiate kwargs rest s' of
             (Inl e, s'') \<Rightarrow> (Inl e, s'')
           | (Inr ts, s'') \<Rightarrow> (Inr (t # ts), s'')))"

definition tasks_cls ::
  "'c \<Rightarrow> ('c, 'm, 'k, 'r, 'st) category_class list \<Rightarrow> 'st \<Rightarrow>
   (error + ('m, 'k, 'r, 'st) task list) \<times> 'st" where
  "tasks_cls kwargs tasks_categories_cls s =
     instantiate kwargs
       (concat (map (\<lambda>cat_cls. filter (\<lambda>cls. startswith (cls_name cat_cls) ''AbsTask'')
                                (cls_subclasses cat_cls))
                    tasks_categories_cls)) s"

subsection \<open>The world: files, the state of the collaborators, and what was called\<close>

text \<open>
  A path is a string and names a file with its content, a directory, or nothing. The
  trace records the calls the session makes, in order; an \<open>Evaluate\<close> event carries what
  the call returned or raised.
\<close>

datatype entry = File string | Dir

datatype ('t, 'r) event =
    LoadData 't
  | Evaluate 't string "error + 'r"
  | Mkdir string
  | PathExists string
  | OpenWrite string

record ('m, 'k, 'r, 'st) world =
  files :: "string \<rightharpoonup> entry"
  state :: 'st
  trace :: "(('m, 'k, 'r, 'st) task, 'r) event list"

definition log ::
  "(('m, 'k, 'r, 'st) task, 'r) event \<Rightarrow> ('m, 'k, 'r, 'st) world \<Rightarrow> ('m, 'k, 'r, 'st) world" where
  "log ev w = w\<lparr>trace := trace w @ [ev]\<rparr>"

text \<open>
  \<open>os.path.exists\<close>, \<open>pathlib.Path(p).mkdir(parents=True, exist_ok=True)\<close>, which
  raises when the path is a file, and \<open>open(p, "w")\<close> followed by a write, which raises
  when the path is a directory. Parent directories and permissions are not tracked.
  \<open>os.path.join\<close> is the POSIX one, for two components.
\<close>

definition os_path_exists :: "(string \<rightharpoonup> entry) \<Rightarrow> string \<Rightarrow> bool" where
  "os_path_exists fs p = (case fs p of None \<Rightarrow> False | Some e \<Rightarrow> True)"

definition mkdir_parents_exist_ok ::
  "string \<Rightarrow> (string \<rightharpoonup> entry) \<Rightarrow> error + (string \<rightharpoonup> entry)" where
  "mkdir_parents_exist_ok p fs =
     (case fs p of
        Some (File c) \<Rightarrow> Inl (FileExistsError p)
      | Some Dir \<Rightarrow> Inr fs
      | None \<Rightarrow> Inr (fs(p \<mapsto> Dir)))"

definition open_write ::
  "string \<Rightarrow> string \<Rightarrow> (string \<rightharpoonup> entry) \<Rightarrow> error + (string \<rightharpoonup> entry)" where
  "open_write p content fs =
     (case fs p of
        Some Dir \<Rightarrow> Inl (IsADirectoryError p)
      | _ \<Rightarrow> Inr (fs(p \<mapsto> File content)))"

definition os_path_join :: "string \<Rightarrow> string \<Rightarrow> string" where
  "os_path_join a b =
     (if startswith b ''/'' then b
      else if a = [] \<or> startswith (rev a) ''/'' then a @ b
      else a @ ''/'' @ b)"

subsection \<open>json.dump of the results of a task\<close>

text \<open>
  The results of a task are a dictionary from split names to what \<open>evaluate\<close> returned:
  an association list in insertion order, where storing under a key that is present
  replaces the value in place. \<open>json.dump\<close> writes such a dictionary as an object:
  \<open>{}\<close> when it is empty, and otherwise one item per line, indented, separated by
  commas, the items sorted by key (strings are ordered by the codes of their characters)
  when \<open>sort_keys\<close> is set. How a key and a value are written is left to the encoder,
  which gets the indent and the nesting level of the value.
\<close>

record 'r json_encoder =
  encode_key :: "string \<Rightarrow> string"
  encode_value :: "nat \<Rightarrow> nat \<Rightarrow> 'r \<Rightarrow> string"

fun join :: "string \<Rightarrow> string list \<Rightarrow> string" where
  "join sep [] = []"
| "join sep [x] = x"
| "join sep (x # y # ys) = x @ sep @ join sep (y # ys)"

definition json_dump ::
  "'r json_encoder \<Rightarrow> (string \<times> 'r) list \<Rightarrow> nat \<Rightarrow> bool \<Rightarrow> string" where
  "json_dump enc obj indent sort_keys =
     (case obj of
        [] \<Rightarrow> ''{}''
      | _ \<Rightarrow>
          (let newline_indent = CHR 0x0A # replicate indent CHR '' '';
               item_separator = '','' @ newline_indent;
               items = (if sort_keys then sort_key fst obj else obj)
           in ''{'' @ newline_indent
              @ join item_separator
                  (map (\<lambda>(k, v). encode_key enc k @ '': '' @ encode_value enc indent 1 v) items)
              @ [CHR 0x0A] @ ''}''))"

subsection \<open>The session: __init__, load_tasks_data, run\<close>

record ('m, 'k, 'r, 'st) mteb =
  self_task_types :: "string list option"
  self_task_categories :: "string list option"
  self_version :: "int option"
  self_tasks_arg :: "('m, 'k, 'r, 'st) task_ref list option"
  self_tasks_cls :: "('m, 'k, 'r, 'st) task list"
  self_tasks :: "('m, 'k, 'r, 'st) task list"

definition available_tasks :: "('m, 'k, 'r, 'st) mteb \<Rightarrow> string list" where
  "available_tasks self = map (\<lambda>x. name (description x)) (self_tasks_cls self)"

definition available_task_types :: "('m, 'k, 'r, 'st) mteb \<Rightarrow> string set" where
  "available_task_types self = set (map (\<lambda>x. type (description x)) (self_tasks_cls self))"

definition available_task_categories :: "('m, 'k, 'r, 'st) mteb \<Rightarrow> string set" where
  "available_task_categories self =
     set (map (\<lambda>x. category (description x)) (self_tasks_cls self))"

definition selected_tasks :: "('m, 'k, 'r, 'st) mteb \<Rightarrow> string list" where
  "selected_tasks self = map (\<lambda>x. name (description x)) (self_tasks self)"



text \<open>
  The body of the loop of \<open>run\<close>, in its three steps: the path and the check that skips
  the task (lines 133-137), the loop over the splits (138-143), the file (144-146).
\<close>

definition save_path :: "string \<Rightarrow> ('m, 'k, 'r, 'st) task \<Rightarrow> string" where
  "save_path output_folder task =
     os_path_join output_folder (name (description task) @ save_suffix task @ ''.json'')"

definition results_exist ::
  "string option \<Rightarrow> ('m, 'k, 'r, 'st) task \<Rightarrow> ('m, 'k, 'r, 'st) world \<Rightarrow>
   bool \<times> ('m, 'k, 'r, 'st) world" where
  "results_exist output_folder task w =
     (case output_folder of
        None \<Rightarrow> (False, w)
      | Some folder \<Rightarrow>
          (os_path_exists (files w) (save_path folder task),
           log (PathExists (save_path folder task)) w))"

fun evaluate_splits ::
  "'m \<Rightarrow> 'k \<Rightarrow> ('m, 'k, 'r, 'st) task \<Rightarrow> string list \<Rightarrow> (string \<times> 'r) list \<Rightarrow>
   ('m, 'k, 'r, 'st) world \<Rightarrow> (error + (string \<times> 'r) list) \<times> ('m, 'k, 'r, 'st) world" where
  "evaluate_splits model kwargs task [] task_results w = (Inr task_results, w)"
| "evaluate_splits model kwargs task (split # splits) task_results w =
     (case evaluate task model split kwargs (state w) of
        (Inl e, s') \<Rightarrow> (Inl e, log (Evaluate task split (Inl e)) w\<lparr>state := s'\<rparr>)
      | (Inr results, s') \<Rightarrow>
          evaluate_splits model kwargs task splits (AList.update split results task_results)
            (log (Evaluate task split (Inr results)) w\<lparr>state := s'\<rparr>))"

definition save_results ::
  "'r json_encoder \<Rightarrow> string option \<Rightarrow> ('m, 'k, 'r, 'st) task \<Rightarrow> (string \<times> 'r) list \<Rightarrow>
   ('m, 'k, 'r, 'st) world \<Rightarrow> error option \<times> ('m, 'k, 'r, 'st) world" where
  "save_results enc output_folder task task_results w =
     (case output_folder of
        None \<Rightarrow> (None, w)
      | Some folder \<Rightarrow>
          (case open_write (save_path folder task) (json_dump enc task_results 2 True) (files w) of
             Inl e \<Rightarrow> (Some e, log (OpenWrite (save_path folder task)) w)
           | Inr fs \<Rightarrow> (None, log (OpenWrite (save_path folder task)) w\<lparr>files := fs\<rparr>)))"

definition run_task ::
  "'r json_encoder \<Rightarrow> 'm \<Rightarrow> 'k \<Rightarrow> string option \<Rightarrow> ('m, 'k, 'r, 'st) task \<Rightarrow>
   ('m, 'k, 'r, 'st) world \<Rightarrow> error option \<times> ('m, 'k, 'r, 'st) world" where
  "run_task enc model kwargs output_folder task w =
     (case results_exist output_folder task w of
        (True, w1) \<Rightarrow> (None, w1)
      | (False, w1) \<Rightarrow>
          (case evaluate_splits model kwargs task (eval_splits (description task)) [] w1 of
             (Inl e, w2) \<Rightarrow> (Some e, w2)
           | (Inr task_results, w2) \<Rightarrow> save_results enc output_folder task task_results w2))"

fun run_loop ::
  "'r json_encoder \<Rightarrow> 'm \<Rightarrow> 'k \<Rightarrow> string option \<Rightarrow> ('m, 'k, 'r, 'st) task list \<Rightarrow>
   ('m, 'k, 'r, 'st) world \<Rightarrow> error option \<times> ('m, 'k, 'r, 'st) world" where
  "run_loop enc model kwargs output_folder [] w = (None, w)"
| "run_loop enc model kwargs output_folder (task # rest) w =
     (case run_task enc model kwargs output_folder task w of
        (Some e, w') \<Rightarrow> (Some e, w')
      | (None, w') \<Rightarrow> run_loop enc model kwargs output_folder rest w')"

definition create_output_folder ::
  "string option \<Rightarrow> ('m, 'k, 'r, 'st) world \<Rightarrow> error + ('m, 'k, 'r, 'st) world" where
  "create_output_folder output_folder w =
     (case output_folder of
        None \<Rightarrow> Inr w
      | Some folder \<Rightarrow>
          (case mkdir_parents_exist_ok folder (files w) of
             Inl e \<Rightarrow> Inl e
           | Inr fs \<Rightarrow> Inr (log (Mkdir folder) w\<lparr>files := fs\<rparr>)))"

text \<open>
  The parameter \<open>output_folder\<close> of \<open>run\<close> has a default: the caller leaves it out or
  gives a value, which may be \<open>None\<close>.
\<close>

datatype output_folder_arg = Default | Given "string option"

fun output_folder_of :: "output_folder_arg \<Rightarrow> string option" where
  "output_folder_of Default = Some ''results/result''"
| "output_folder_of (Given folder) = folder"

definition run ::
  "'r json_encoder \<Rightarrow> ('m, 'k, 'r, 'st) mteb \<Rightarrow> 'm \<Rightarrow> output_folder_arg \<Rightarrow> 'k \<Rightarrow>
   ('m, 'k, 'r, 'st) world \<Rightarrow> error option \<times> ('m, 'k, 'r, 'st) world" where
  "run enc self model output_folder kwargs w =
     (case create_output_folder (output_folder_of output_folder) w of
        Inl e \<Rightarrow> (Some e, w)
      | Inr w1 \<Rightarrow> run_loop enc model kwargs (output_folder_of output_folder) (self_tasks self) w1)"

text \<open>
  The calls of \<open>evaluate\<close> that a run over the tasks \<open>ts\<close> makes when no task is
  skipped and none raises: every split of every task, in order.
\<close>

definition evaluate_calls_of ::
  "('m, 'k, 'r, 'st) task list \<Rightarrow> (('m, 'k, 'r, 'st) task \<times> string) list" where
  "evaluate_calls_of ts = concat (map (\<lambda>t. map (Pair t) (eval_splits (description t))) ts)"

subsection \<open>Example tasks\<close>

text \<open>
  Three tasks with the descriptors A (type X, category s2s, version 1), B (Y, s2s, 2)
  and C (X, p2p, 2). The state of the collaborators is a counter of calls: the loader
  never raises and counts, \<open>evaluate\<close> returns the name of the split followed by one
  mark for each earlier call, and counts.
\<close>

definition mk_task ::
  "string \<Rightarrow> string \<Rightarrow> string \<Rightarrow> int \<Rightarrow> string list \<Rightarrow> (unit, unit, string, nat) task" where
  "mk_task n ty ca v sp =
     \<lparr>description = \<lparr>name = n, type = ty, category = ca, version = v, eval_splits = sp\<rparr>,
      save_suffix = [],
      load_data = (\<lambda>s. (None, Suc s)),
      evaluate = (\<lambda>m split k s. (Inr (split @ replicate s CHR ''+''), Suc s))\<rparr>"

definition taskA :: "(unit, unit, string, nat) task" where
  "taskA = mk_task ''A'' ''X'' ''s2s'' 1 [''test'']"

definition taskB :: "(unit, unit, string, nat) task" where
  "taskB = mk_task ''B'' ''Y'' ''s2s'' 2 [''test'', ''validation'']"

definition taskC :: "(unit, unit, string, nat) task" where
  "taskC = mk_task ''C'' ''X'' ''p2p'' 2 [''validation'', ''test'']"

text \<open>
  A task whose \<open>evaluate\<close> raises on the split \<open>validation\<close>, and a task whose loader
  raises.
\<close>

definition taskF :: "(unit, unit, string, nat) task" where
  "taskF = (mk_task ''F'' ''X'' ''s2s'' 1 [''test'', ''validation''])
     \<lparr>evaluate := (\<lambda>m split k s.
         if split = ''validation'' then (Inl (Raised ''boom''), Suc s)
         else (Inr (split @ replicate s CHR ''+''), Suc s))\<rparr>"

definition taskL :: "(unit, unit, string, nat) task" where
  "taskL = (mk_task ''L'' ''Y'' ''p2p'' 3 [''test''])
     \<lparr>load_data := (\<lambda>s. (Some (Raised ''no data''), s))\<rparr>"

text \<open>
  An encoder that writes keys and values between double quotes, the world with no file
  and nothing called yet, a session over given tasks, and a class hierarchy: two
  categories of tasks and a class that is not one.
\<close>

definition example_encoder :: "string json_encoder" where
  "example_encoder =
     \<lparr>encode_key = (\<lambda>k. [CHR 0x22] @ k @ [CHR 0x22]),
      encode_value = (\<lambda>indent level v. [CHR 0x22] @ v @ [CHR 0x22])\<rparr>"

definition world0 :: "(unit, unit, string, nat) world" where
  "world0 = \<lparr>files = Map.empty, state = 0, trace = []\<rparr>"

definition session_of ::
  "(unit, unit, string, nat) task list \<Rightarrow> (unit, unit, string, nat) mteb" where
  "session_of ts =
     \<lparr>self_task_types = None, self_task_categories = None, self_version = None,
      self_tasks_arg = Some (map ByInstance ts), self_tasks_cls = [], self_tasks = ts\<rparr>"


section \<open>Properties of the selection\<close>

lemma description_examples:
  "description taskA = \<lparr>name = ''A'', type = ''X'', category = ''s2s'', version = 1, eval_splits = [''test'']\<rparr>"
  "description taskB = \<lparr>name = ''B'', type = ''Y'', category = ''s2s'', version = 2, eval_splits = [''test'', ''validation'']\<rparr>"
  "description taskC = \<lparr>name = ''C'', type = ''X'', category = ''p2p'', version = 2, eval_splits = [''validation'', ''test'']\<rparr>"
  by (simp_all add: taskA_def taskB_def taskC_def mk_task_def)

lemma examples_distinct: "distinct [taskA, taskB, taskC]"
  by (simp add: taskA_def taskB_def taskC_def mk_task_def)

lemma ByName_in_set: "(ByName n \<in> set L) = (n \<in> set [m. ByName m \<leftarrow> L])"
proof (induction L)
  case Nil
  show ?case by simp
next
  case (Cons a L)
  then show ?case by (cases a) auto
qed

lemma instances_of:
  "List.map_filter the_instance (filter isinstance_AbsTask L) = [t. ByInstance t \<leftarrow> L]"
proof (induction L)
  case Nil
  show ?case by (simp add: List.map_filter_simps)
next
  case (Cons a L)
  then show ?case by (cases a) (simp_all add: List.map_filter_simps)
qed

lemma no_instances:
  "\<forall>r \<in> set L. \<not> isinstance_AbsTask r \<Longrightarrow> [t. ByInstance t \<leftarrow> L] = []"
proof (induction L)
  case Nil
  show ?case by simp
next
  case (Cons a L)
  then show ?case by (cases a) auto
qed

lemma count_instances: "count_list [t. ByInstance t \<leftarrow> L] x = count_list L (ByInstance x)"
proof (induction L)
  case Nil
  show ?case by simp
next
  case (Cons a L)
  then show ?case by (cases a) auto
qed

lemma count_filter_distinct:
  "distinct T \<Longrightarrow> count_list (filter P T) x = (if x \<in> set T \<and> P x then 1 else 0)"
  by (induction T) auto

lemma select_tasks_Some:
  "select_tasks task_types task_categories ver (Some L) T
     = filter (\<lambda>x. name (description x) \<in> set [n. ByName n \<leftarrow> L]) T @ [t. ByInstance t \<leftarrow> L]"
proof -
  have "filter (filter_task_list L) T
      = filter (\<lambda>x. name (description x) \<in> set [n. ByName n \<leftarrow> L]) T"
    unfolding filter_task_list_def by (rule filter_cong) (rule refl, rule ByName_in_set)
  then show ?thesis by (simp add: select_tasks_def instances_of)
qed

lemma predicates_conj:
  "(filter_task_type task_types x \<and> filter_task_category task_categories x \<and> filter_version ver x)
   = ((case task_types of None \<Rightarrow> True | Some s \<Rightarrow> type (description x) \<in> set s)
      \<and> (case task_categories of None \<Rightarrow> True | Some s \<Rightarrow> category (description x) \<in> set s)
      \<and> (case ver of None \<Rightarrow> True | Some v \<Rightarrow> v \<le> version (description x)))"
  by (simp add: filter_task_type_def filter_task_category_def filter_version_def
      split: option.splits)

lemma select_tasks_None:
  "select_tasks task_types task_categories ver None T
     = filter (\<lambda>x. filter_task_type task_types x \<and> filter_task_category task_categories x
                  \<and> filter_version ver x) T"
  by (auto simp add: select_tasks_def intro: filter_cong)

text \<open>
  C1. With an explicit list \<open>L\<close> the selection is the discovered instances whose name
  is one of the strings of \<open>L\<close>, in the order of discovery, followed by the task instances
  that \<open>L\<close> itself holds, in the order of \<open>L\<close>. The type, category and version
  parameters have no effect: any values give what \<open>None\<close> gives.
\<close>

theorem select_tasks_explicit_list:
  "select_tasks task_types task_categories ver (Some L) T
     = filter (\<lambda>x. name (description x) \<in> set [n. ByName n \<leftarrow> L]) T @ [t. ByInstance t \<leftarrow> L]
   \<and> select_tasks task_types task_categories ver (Some L) T
     = select_tasks None None None (Some L) T"
  by (simp add: select_tasks_Some)

theorem select_tasks_explicit_list_witness:
  "select_tasks (Some [''Y'']) None (Some 5) (Some [ByName ''C'', ByName ''A''])
     [taskA, taskB, taskC] = [taskA, taskC]"
  using select_tasks_explicit_list
    [of "Some [''Y'']" None "Some 5" "[ByName ''C'', ByName ''A'']" "[taskA, taskB, taskC]"]
  by (simp add: description_examples)

text \<open>
  C2. Without an explicit list a discovered task is selected exactly when it passes the
  type, the category and the version predicate, each of which passes when its parameter
  is \<open>None\<close>; the version predicate is a floor (\<open>v \<le> version\<close>). The selection is a
  filter of the discovered list, so it keeps the order of discovery, and with the three
  parameters \<open>None\<close> it is the whole discovered list.
\<close>

theorem select_tasks_predicates:
  "select_tasks task_types task_categories ver None T
     = filter (\<lambda>x. (case task_types of None \<Rightarrow> True | Some s \<Rightarrow> type (description x) \<in> set s)
                  \<and> (case task_categories of None \<Rightarrow> True
                       | Some s \<Rightarrow> category (description x) \<in> set s)
                  \<and> (case ver of None \<Rightarrow> True | Some v \<Rightarrow> v \<le> version (description x))) T
   \<and> select_tasks None None None None T = T
   \<and> (x \<in> set (select_tasks None None (Some v) None T))
     = (x \<in> set T \<and> v \<le> version (description x))"
proof -
  have a: "select_tasks task_types task_categories ver None T
     = filter (\<lambda>x. (case task_types of None \<Rightarrow> True | Some s \<Rightarrow> type (description x) \<in> set s)
                  \<and> (case task_categories of None \<Rightarrow> True
                       | Some s \<Rightarrow> category (description x) \<in> set s)
                  \<and> (case ver of None \<Rightarrow> True | Some v \<Rightarrow> v \<le> version (description x))) T"
    for task_types task_categories ver
    by (simp only: select_tasks_None predicates_conj)
  have b: "select_tasks None None None None T = T"
    by (simp add: a)
  have c: "(x \<in> set (select_tasks None None (Some v) None T))
     = (x \<in> set T \<and> v \<le> version (description x))"
    by (simp add: a)
  from a b c show ?thesis by blast
qed

theorem select_tasks_predicates_witness:
  "select_tasks (Some [''X'']) None None None [taskA, taskB, taskC] = [taskA, taskC]
   \<and> select_tasks None (Some [''s2s'']) None None [taskA, taskB, taskC] = [taskA, taskB]
   \<and> select_tasks None None (Some 2) None [taskA, taskB, taskC] = [taskB, taskC]
   \<and> select_tasks (Some [''X'']) (Some [''s2s'', ''p2p'']) (Some 2) None
        [taskA, taskB, taskC] = [taskC]"
  using select_tasks_predicates [of "Some [''X'']" None None "[taskA, taskB, taskC]"]
    select_tasks_predicates [of None "Some [''s2s'']" None "[taskA, taskB, taskC]"]
    select_tasks_predicates [of None None "Some 2" "[taskA, taskB, taskC]"]
    select_tasks_predicates [of "Some [''X'']" "Some [''s2s'', ''p2p'']" "Some 2"
      "[taskA, taskB, taskC]"]
  by (simp add: description_examples)

text \<open>
  C4, as stated: whatever the constructor parameters, each task is in the selection at
  most once. It fails for an explicit list that holds the same task instance twice: the
  instances of the list are appended one by one, with no check.
\<close>

theorem select_tasks_duplicate_counterexample:
  "\<not> distinct (select_tasks None None None (Some [ByInstance taskA, ByInstance taskA])
       [taskA, taskB])"
  by (simp add: select_tasks_def filter_task_list_def List.map_filter_simps)

text \<open>
  C4, amended. When the discovered instances are pairwise distinct, the selection by
  predicates has no duplicate, and neither has the selection by an explicit list that
  holds no task instance (a name may be repeated in it). In general a task \<open>x\<close> is in
  the selection by the list \<open>L\<close> once if it was discovered and \<open>L\<close> holds its name, plus
  once for every occurrence of \<open>x\<close> as an instance in \<open>L\<close>.
\<close>

theorem select_tasks_distinct:
  assumes "distinct T"
  shows "distinct (select_tasks task_types task_categories ver None T)
    \<and> ((\<forall>r \<in> set L. \<not> isinstance_AbsTask r) \<longrightarrow>
         distinct (select_tasks task_types task_categories ver (Some L) T))
    \<and> count_list (select_tasks task_types task_categories ver (Some L) T) x
       = (if x \<in> set T \<and> ByName (name (description x)) \<in> set L then 1 else 0)
         + count_list L (ByInstance x)"
proof -
  have a: "distinct (select_tasks task_types task_categories ver None T)"
    using assms by (simp add: select_tasks_None)
  have b: "distinct (select_tasks task_types task_categories ver (Some L) T)"
    if "\<forall>r \<in> set L. \<not> isinstance_AbsTask r"
  proof -
    have e: "[t. ByInstance t \<leftarrow> L] = []"
      by (rule no_instances [OF that])
    show ?thesis unfolding select_tasks_Some e using assms by simp
  qed
  have c: "count_list (select_tasks task_types task_categories ver (Some L) T) x
       = (if x \<in> set T \<and> ByName (name (description x)) \<in> set L then 1 else 0)
         + count_list L (ByInstance x)"
    using assms
    by (simp add: select_tasks_def instances_of count_instances count_filter_distinct
        filter_task_list_def)
  from a b c show ?thesis by blast
qed

theorem select_tasks_distinct_witness:
  "distinct [taskA, taskB, taskC]
   \<and> distinct (select_tasks (Some [''X'']) None None None [taskA, taskB, taskC])
   \<and> distinct (select_tasks None None None (Some [ByName ''B'', ByName ''B''])
        [taskA, taskB, taskC])
   \<and> count_list (select_tasks None None None (Some [ByName ''B'', ByName ''B''])
        [taskA, taskB, taskC]) taskB = 1"
  using select_tasks_distinct [OF examples_distinct, of "Some [''X'']" None None
      "[ByName ''B'', ByName ''B'']" taskB]
    select_tasks_distinct [OF examples_distinct, of None None None
      "[ByName ''B'', ByName ''B'']" taskB]
    examples_distinct
  by (simp add: description_examples)

text \<open>
  C9. The empty list is a list: the branch of the explicit list is taken, nothing is
  selected, whatever was discovered and whatever the other parameters are. It gives what
  an absent list with no filter gives only when nothing was discovered.
\<close>

theorem select_tasks_empty_list:
  "select_tasks task_types task_categories ver (Some []) T = []
   \<and> (select_tasks task_types task_categories ver (Some []) T
        = select_tasks None None None None T) = (T = [])"
proof -
  have a: "select_tasks task_types task_categories ver (Some []) T = []"
    by (simp add: select_tasks_def filter_task_list_def List.map_filter_simps)
  have b: "select_tasks None None None None T = T"
    by (simp add: select_tasks_None filter_task_type_def filter_task_category_def
        filter_version_def)
  show ?thesis unfolding a b by auto
qed

section \<open>Properties of the run loop\<close>

subsection \<open>The loop over the splits\<close>

lemma log_simps [simp]:
  "files (log ev w) = files w" "state (log ev w) = state w" "trace (log ev w) = trace w @ [ev]"
  by (simp_all add: log_def)

lemma evaluate_splits_files:
  "evaluate_splits m k t S res w = (r, w') \<Longrightarrow> files w' = files w"
proof (induction S arbitrary: res w)
  case Nil
  then show ?case by simp
next
  case (Cons s S)
  then show ?case by (auto split: prod.splits sum.splits)
qed

lemma evaluate_splits_Inr:
  "evaluate_splits m k t S res w = (Inr res', w') \<Longrightarrow>
   \<exists>rs. length rs = length S
      \<and> trace w' = trace w @ map (\<lambda>(s, r). Evaluate t s (Inr r)) (zip S rs)
      \<and> res' = foldl (\<lambda>d (s, r). AList.update s r d) res (zip S rs)"
proof (induction S arbitrary: res w)
  case Nil
  then show ?case by simp
next
  case (Cons s S)
  from Cons.prems obtain r s' where
    ev: "evaluate t m s k (state w) = (Inr r, s')"
    and rest: "evaluate_splits m k t S (AList.update s r res)
                 (log (Evaluate t s (Inr r)) w\<lparr>state := s'\<rparr>) = (Inr res', w')"
    by (auto split: prod.splits sum.splits)
  from Cons.IH [OF rest] obtain rs where
    rs: "length rs = length S"
      "trace w' = trace (log (Evaluate t s (Inr r)) w\<lparr>state := s'\<rparr>)
         @ map (\<lambda>(s, r). Evaluate t s (Inr r)) (zip S rs)"
      "res' = foldl (\<lambda>d (s, r). AList.update s r d) (AList.update s r res) (zip S rs)"
    by blast
  show ?case
    by (rule exI [of _ "r # rs"]) (use rs in simp)
qed

lemma evaluate_splits_Inl:
  "evaluate_splits m k t S res w = (Inl e, w') \<Longrightarrow>
   \<exists>done split rest rs. S = done @ split # rest \<and> length rs = length done
      \<and> trace w' = trace w @ map (\<lambda>(s, r). Evaluate t s (Inr r)) (zip done rs)
                     @ [Evaluate t split (Inl e)]"
proof (induction S arbitrary: res w)
  case Nil
  then show ?case by simp
next
  case (Cons s S)
  show ?case
  proof (cases "evaluate t m s k (state w)")
    case (Pair out s')
    show ?thesis
    proof (cases out)
      case (Inl e')
      with Pair Cons.prems have "e' = e" "w' = log (Evaluate t s (Inl e)) w\<lparr>state := s'\<rparr>"
        by auto
      then show ?thesis
        by (intro exI [of _ "[]"] exI [of _ s] exI [of _ S]) simp
    next
      case (Inr r)
      with Pair Cons.prems have rest: "evaluate_splits m k t S (AList.update s r res)
                 (log (Evaluate t s (Inr r)) w\<lparr>state := s'\<rparr>) = (Inl e, w')"
        by simp
      from Cons.IH [OF rest] obtain dn split rst rs where
        h: "S = dn @ split # rst" "length rs = length dn"
          "trace w' = trace (log (Evaluate t s (Inr r)) w\<lparr>state := s'\<rparr>)
             @ map (\<lambda>(s, r). Evaluate t s (Inr r)) (zip dn rs) @ [Evaluate t split (Inl e)]"
        by blast
      show ?thesis
        by (rule exI [of _ "s # dn"], rule exI [of _ split], rule exI [of _ rst],
            rule exI [of _ "r # rs"]) (use h in simp)
    qed
  qed
qed

lemma evaluate_splits_trace:
  "evaluate_splits m k t S res w = (r, w') \<Longrightarrow> \<exists>evs. trace w' = trace w @ evs"
proof (cases r)
  case (Inl e)
  assume "evaluate_splits m k t S res w = (r, w')"
  from evaluate_splits_Inl [OF this [unfolded Inl]] show ?thesis by blast
next
  case (Inr res')
  assume "evaluate_splits m k t S res w = (r, w')"
  from evaluate_splits_Inr [OF this [unfolded Inr]] show ?thesis by blast
qed





subsection \<open>One task\<close>

lemma os_path_exists_iff: "os_path_exists fs p = (fs p \<noteq> None)"
  by (simp add: os_path_exists_def split: option.splits)


lemma save_path_default_ne: "save_path ''results/result'' t \<noteq> ''results/result''"
proof -
  let ?b = "name (description t) @ save_suffix t @ ''.json''"
  show ?thesis
  proof (cases "startswith ?b ''/''")
    case True
    then have "hd (save_path ''results/result'' t) = CHR ''/''"
      by (cases ?b) (auto simp: save_path_def os_path_join_def startswith_def)
    then show ?thesis by auto
  next
    case False
    then have "length (save_path ''results/result'' t) > length ''results/result''"
      by (simp add: save_path_def os_path_join_def startswith_def)
    then show ?thesis by auto
  qed
qed

lemma results_exist_files: "results_exist out t w = (b, w1) \<Longrightarrow> files w1 = files w"
  by (auto simp: results_exist_def split: option.splits)

lemma results_exist_False:
  "results_exist (Some folder) t w = (False, w1) \<Longrightarrow> files w (save_path folder t) = None"
  by (auto simp: results_exist_def os_path_exists_iff)

lemma run_task_skip:
  "os_path_exists (files w) (save_path folder t) \<Longrightarrow>
   run_task enc m k (Some folder) t w = (None, log (PathExists (save_path folder t)) w)"
  by (simp add: run_task_def results_exist_def)

lemma run_task_frame:
  assumes "run_task enc m k out t w = (r, w')" and "files w p = Some e"
  shows "files w' p = Some e"
proof (cases "fst (results_exist out t w)")
  case True
  with assms show ?thesis
    by (auto simp: run_task_def results_exist_def split: option.splits)
next
  case False
  obtain w1 where w1: "results_exist out t w = (False, w1)" and f1: "files w1 = files w"
    using False by (auto simp: results_exist_def split: option.splits)
  obtain out2 w2 where
    ev: "evaluate_splits m k t (eval_splits (description t)) [] w1 = (out2, w2)"
    by (cases "evaluate_splits m k t (eval_splits (description t)) [] w1")
  have f2: "files w2 = files w" using evaluate_splits_files [OF ev] f1 by simp
  show ?thesis
  proof (cases out2)
    case (Inl e')
    with assms w1 ev f2 show ?thesis by (simp add: run_task_def)
  next
    case (Inr res)
    with assms(1) w1 ev have sr: "save_results enc out t res w2 = (r, w')"
      by (simp add: run_task_def)
    show ?thesis
    proof (cases out)
      case None
      with sr f2 assms(2) show ?thesis by (simp add: save_results_def)
    next
      case (Some folder)
      with False have "files w (save_path folder t) = None"
        by (simp add: results_exist_def os_path_exists_iff)
      with sr Some f2 assms(2) show ?thesis
        by (auto simp: save_results_def open_write_def split: option.splits)
    qed
  qed
qed

lemma run_task_exists_after:
  assumes "run_task enc m k (Some folder) t w = (None, w')"
  shows "os_path_exists (files w') (save_path folder t)"
proof (cases "os_path_exists (files w) (save_path folder t)")
  case True
  with assms show ?thesis by (auto simp: run_task_skip)
next
  case False
  then have none: "files w (save_path folder t) = None"
    by (simp add: os_path_exists_iff)
  obtain out2 w2 where
    ev: "evaluate_splits m k t (eval_splits (description t)) []
           (log (PathExists (save_path folder t)) w) = (out2, w2)"
    by (cases "evaluate_splits m k t (eval_splits (description t)) []
           (log (PathExists (save_path folder t)) w)")
  have f2: "files w2 = files w" using evaluate_splits_files [OF ev] by simp
  from assms False ev obtain res where
    "out2 = Inr res" and sr: "save_results enc (Some folder) t res w2 = (None, w')"
    by (cases out2) (auto simp: run_task_def results_exist_def)
  with f2 none show ?thesis
    by (auto simp: save_results_def open_write_def os_path_exists_iff split: option.splits)
qed

lemma run_task_not_skipped:
  assumes "\<not> os_path_exists (files w) (save_path folder t)"
    and "run_task enc m k (Some folder) t w = (None, w')"
  shows "\<exists>rs. length rs = length (eval_splits (description t))
    \<and> trace w' = trace w @ PathExists (save_path folder t)
        # map (\<lambda>(s, r). Evaluate t s (Inr r)) (zip (eval_splits (description t)) rs)
        @ [OpenWrite (save_path folder t)]
    \<and> files w' = (files w)(save_path folder t \<mapsto>
        File (json_dump enc
          (foldl (\<lambda>d (s, r). AList.update s r d) [] (zip (eval_splits (description t)) rs))
          2 True))"
proof -
  let ?p = "save_path folder t"
  let ?w1 = "log (PathExists ?p) w"
  have none: "files w ?p = None" using assms(1) by (simp add: os_path_exists_iff)
  obtain out2 w2 where
    ev: "evaluate_splits m k t (eval_splits (description t)) [] ?w1 = (out2, w2)"
    by (cases "evaluate_splits m k t (eval_splits (description t)) [] ?w1")
  from assms ev obtain res where
    out2: "out2 = Inr res" and sr: "save_results enc (Some folder) t res w2 = (None, w')"
    by (cases out2) (auto simp: run_task_def results_exist_def)
  have f2: "files w2 = files w" using evaluate_splits_files [OF ev] by simp
  from evaluate_splits_Inr [OF ev [unfolded out2]] obtain rs where
    rs: "length rs = length (eval_splits (description t))"
      "trace w2 = trace ?w1
         @ map (\<lambda>(s, r). Evaluate t s (Inr r)) (zip (eval_splits (description t)) rs)"
      "res = foldl (\<lambda>d (s, r). AList.update s r d) [] (zip (eval_splits (description t)) rs)"
    by blast
  from sr f2 none have w': "w' = log (OpenWrite ?p) w2\<lparr>files := (files w)(?p \<mapsto>
      File (json_dump enc res 2 True))\<rparr>"
    by (auto simp: save_results_def open_write_def split: option.splits)
  show ?thesis
    by (rule exI [of _ rs]) (use rs w' in simp)
qed

lemma run_task_trace:
  assumes "run_task enc m k out t w = (r, w')"
  shows "\<exists>evs. trace w' = trace w @ evs"
proof -
  obtain b w1 where re: "results_exist out t w = (b, w1)"
    by (cases "results_exist out t w")
  then have t1: "\<exists>evs. trace w1 = trace w @ evs"
    by (auto simp: results_exist_def split: option.splits)
  show ?thesis
  proof (cases b)
    case True
    with re assms t1 show ?thesis by (simp add: run_task_def)
  next
    case False
    obtain out2 w2 where
      ev: "evaluate_splits m k t (eval_splits (description t)) [] w1 = (out2, w2)"
      by (cases "evaluate_splits m k t (eval_splits (description t)) [] w1")
    from evaluate_splits_trace [OF ev] t1 have t2: "\<exists>evs. trace w2 = trace w @ evs" by auto
    show ?thesis
    proof (cases out2)
      case (Inl e)
      with False re ev assms t2 show ?thesis by (simp add: run_task_def)
    next
      case (Inr res)
      with False re ev assms have "save_results enc out t res w2 = (r, w')"
        by (simp add: run_task_def)
      then have "\<exists>evs. trace w' = trace w2 @ evs"
        by (auto simp: save_results_def split: option.splits sum.splits)
      with t2 show ?thesis by auto
    qed
  qed
qed

lemma run_task_other_path:
  assumes "run_task enc m k (Some folder) t w = (r, w')" and "p \<noteq> save_path folder t"
  shows "files w' p = files w p"
proof -
  let ?w1 = "log (PathExists (save_path folder t)) w"
  show ?thesis
  proof (cases "os_path_exists (files w) (save_path folder t)")
    case True
    with assms show ?thesis by (auto simp: run_task_skip)
  next
    case False
    obtain out2 w2 where
      ev: "evaluate_splits m k t (eval_splits (description t)) [] ?w1 = (out2, w2)"
      by (cases "evaluate_splits m k t (eval_splits (description t)) [] ?w1")
    have f2: "files w2 = files w" using evaluate_splits_files [OF ev] by simp
    show ?thesis
    proof (cases out2)
      case (Inl e)
      with False ev assms f2 show ?thesis by (auto simp: run_task_def results_exist_def)
    next
      case (Inr res)
      with False ev assms have "save_results enc (Some folder) t res w2 = (r, w')"
        by (simp add: run_task_def results_exist_def)
      with f2 assms(2) show ?thesis
        by (auto simp: save_results_def open_write_def split: option.splits entry.splits)
    qed
  qed
qed

lemma run_task_checks:
  assumes "run_task enc m k (Some folder) t w = (r, w')"
  shows "PathExists (save_path folder t) \<in> set (trace w')"
proof -
  obtain r0 w0 where "run_task enc m k (Some folder) t w = (r0, w0)" by (rule that [OF assms])
  let ?w1 = "log (PathExists (save_path folder t)) w"
  show ?thesis
  proof (cases "os_path_exists (files w) (save_path folder t)")
    case True
    with assms show ?thesis by (auto simp: run_task_skip)
  next
    case False
    obtain out2 w2 where
      ev: "evaluate_splits m k t (eval_splits (description t)) [] ?w1 = (out2, w2)"
      by (cases "evaluate_splits m k t (eval_splits (description t)) [] ?w1")
    from evaluate_splits_trace [OF ev] have t2: "PathExists (save_path folder t) \<in> set (trace w2)"
      by auto
    show ?thesis
    proof (cases out2)
      case (Inl e)
      with False ev assms t2 show ?thesis by (auto simp: run_task_def results_exist_def)
    next
      case (Inr res)
      with False ev assms have "save_results enc (Some folder) t res w2 = (r, w')"
        by (simp add: run_task_def results_exist_def)
      with t2 show ?thesis
        by (auto simp: save_results_def split: option.splits sum.splits)
    qed
  qed
qed

lemma run_task_written:
  assumes "run_task enc m k (Some folder) t w = (None, w')"
    and "files w (save_path folder t) = None"
  shows "(\<exists>c. files w' (save_path folder t) = Some (File c))
    \<and> OpenWrite (save_path folder t) \<in> set (trace w')"
proof -
  have "\<not> os_path_exists (files w) (save_path folder t)"
    using assms(2) by (simp add: os_path_exists_iff)
  from run_task_not_skipped [OF this assms(1)] show ?thesis by auto
qed

lemma run_task_None:
  assumes "run_task enc m k None t w = (r, w')"
  shows "files w' = files w
    \<and> (\<exists>evs. trace w' = trace w @ evs
          \<and> (\<forall>ev \<in> set evs. \<exists>split out. ev = Evaluate t split out)
          \<and> (r = None \<longrightarrow> (\<exists>rs. length rs = length (eval_splits (description t))
                \<and> evs = map (\<lambda>(s, r). Evaluate t s (Inr r))
                           (zip (eval_splits (description t)) rs))))"
proof -
  obtain out2 w2 where
    ev: "evaluate_splits m k t (eval_splits (description t)) [] w = (out2, w2)"
    by (cases "evaluate_splits m k t (eval_splits (description t)) [] w")
  have f: "files w2 = files w" by (rule evaluate_splits_files [OF ev])
  show ?thesis
  proof (cases out2)
    case (Inl e)
    with assms ev have r: "r = Some e" "w' = w2"
      by (simp_all add: run_task_def results_exist_def)
    from evaluate_splits_Inl [OF ev [unfolded Inl]] obtain dn split rst rs where
      tr: "trace w2 = trace w @ map (\<lambda>(s, r). Evaluate t s (Inr r)) (zip dn rs)
             @ [Evaluate t split (Inl e)]"
      by blast
    have "\<exists>evs. trace w' = trace w @ evs
          \<and> (\<forall>ev \<in> set evs. \<exists>split out. ev = Evaluate t split out)
          \<and> (r = None \<longrightarrow> (\<exists>rs. length rs = length (eval_splits (description t))
                \<and> evs = map (\<lambda>(s, r). Evaluate t s (Inr r))
                           (zip (eval_splits (description t)) rs)))"
      by (rule exI [of _ "map (\<lambda>(s, r). Evaluate t s (Inr r)) (zip dn rs)
             @ [Evaluate t split (Inl e)]"]) (use tr r in auto)
    with f r show ?thesis by simp
  next
    case (Inr res)
    with assms ev have r: "r = None" "w' = w2"
      by (simp_all add: run_task_def results_exist_def save_results_def)
    from evaluate_splits_Inr [OF ev [unfolded Inr]] obtain rs where
      rs: "length rs = length (eval_splits (description t))"
        "trace w2 = trace w @ map (\<lambda>(s, r). Evaluate t s (Inr r))
                                (zip (eval_splits (description t)) rs)"
      by blast
    have "\<exists>evs. trace w' = trace w @ evs
          \<and> (\<forall>ev \<in> set evs. \<exists>split out. ev = Evaluate t split out)
          \<and> (r = None \<longrightarrow> (\<exists>rs. length rs = length (eval_splits (description t))
                \<and> evs = map (\<lambda>(s, r). Evaluate t s (Inr r))
                           (zip (eval_splits (description t)) rs)))"
      by (rule exI [of _ "map (\<lambda>(s, r). Evaluate t s (Inr r))
                                (zip (eval_splits (description t)) rs)"])
        (use rs r in auto)
    with f r show ?thesis by simp
  qed
qed

subsection \<open>The loop over the tasks\<close>

lemma run_loop_append:
  "run_loop enc m k out (xs @ ys) w =
     (case run_loop enc m k out xs w of
        (Some e, w') \<Rightarrow> (Some e, w')
      | (None, w') \<Rightarrow> run_loop enc m k out ys w')"
  by (induction xs arbitrary: w) (auto split: prod.splits option.splits)

lemma run_loop_frame:
  "run_loop enc m k out ts w = (r, w') \<Longrightarrow> files w p = Some e \<Longrightarrow> files w' p = Some e"
proof (induction ts arbitrary: w)
  case Nil
  then show ?case by simp
next
  case (Cons t ts)
  obtain r1 w1 where rt: "run_task enc m k out t w = (r1, w1)"
    by (cases "run_task enc m k out t w")
  note f1 = run_task_frame [OF rt Cons.prems(2)]
  show ?case
  proof (cases r1)
    case None
    with rt Cons.prems(1) have "run_loop enc m k out ts w1 = (r, w')" by simp
    from Cons.IH [OF this f1] show ?thesis .
  next
    case (Some e')
    with rt Cons.prems(1) have "w' = w1" by simp
    with f1 show ?thesis by simp
  qed
qed

lemma run_loop_exists_after:
  "run_loop enc m k (Some folder) ts w = (None, w') \<Longrightarrow> t \<in> set ts \<Longrightarrow>
   os_path_exists (files w') (save_path folder t)"
proof (induction ts arbitrary: w)
  case Nil
  then show ?case by simp
next
  case (Cons a ts)
  from Cons.prems(1) obtain w1 where
    rt: "run_task enc m k (Some folder) a w = (None, w1)"
    and rl: "run_loop enc m k (Some folder) ts w1 = (None, w')"
    by (auto split: prod.splits option.splits)
  show ?case
  proof (cases "t \<in> set ts")
    case True
    from Cons.IH [OF rl True] show ?thesis .
  next
    case False
    with Cons.prems(2) have "t = a" by simp
    with run_task_exists_after [OF rt] obtain e where "files w1 (save_path folder t) = Some e"
      by (auto simp: os_path_exists_iff)
    from run_loop_frame [OF rl this] show ?thesis by (simp add: os_path_exists_iff)
  qed
qed

lemma run_loop_all_exist:
  "\<forall>t \<in> set ts. os_path_exists (files w) (save_path folder t) \<Longrightarrow>
   run_loop enc m k (Some folder) ts w
     = (None, w\<lparr>trace := trace w @ map (\<lambda>t. PathExists (save_path folder t)) ts\<rparr>)"
proof (induction ts arbitrary: w)
  case Nil
  then show ?case by simp
next
  case (Cons a ts)
  have "\<forall>t \<in> set ts. os_path_exists (files (log (PathExists (save_path folder a)) w))
          (save_path folder t)"
    using Cons.prems by simp
  from Cons.IH [OF this] Cons.prems show ?case
    by (simp add: run_task_skip log_def)
qed

lemma run_loop_trace:
  "run_loop enc m k out ts w = (r, w') \<Longrightarrow> \<exists>evs. trace w' = trace w @ evs"
proof (induction ts arbitrary: w)
  case Nil
  then show ?case by simp
next
  case (Cons t ts)
  obtain r1 w1 where rt: "run_task enc m k out t w = (r1, w1)"
    by (cases "run_task enc m k out t w")
  from run_task_trace [OF rt] obtain evs1 where t1: "trace w1 = trace w @ evs1" by blast
  show ?case
  proof (cases r1)
    case None
    with rt Cons.prems have "run_loop enc m k out ts w1 = (r, w')" by simp
    from Cons.IH [OF this] t1 show ?thesis by auto
  next
    case (Some e)
    with rt Cons.prems t1 show ?thesis by auto
  qed
qed

lemma run_loop_checks:
  "run_loop enc m k (Some folder) ts w = (None, w') \<Longrightarrow> t \<in> set ts \<Longrightarrow>
   PathExists (save_path folder t) \<in> set (trace w')"
proof (induction ts arbitrary: w)
  case Nil
  then show ?case by simp
next
  case (Cons a ts)
  from Cons.prems(1) obtain w1 where
    rt: "run_task enc m k (Some folder) a w = (None, w1)"
    and rl: "run_loop enc m k (Some folder) ts w1 = (None, w')"
    by (auto split: prod.splits option.splits)
  show ?case
  proof (cases "t \<in> set ts")
    case True
    from Cons.IH [OF rl True] show ?thesis .
  next
    case False
    with Cons.prems(2) have "t = a" by simp
    with run_task_checks [OF rt] have "PathExists (save_path folder t) \<in> set (trace w1)"
      by simp
    with run_loop_trace [OF rl] show ?thesis by auto
  qed
qed

lemma run_loop_written:
  "run_loop enc m k (Some folder) ts w = (None, w') \<Longrightarrow> t \<in> set ts \<Longrightarrow>
   files w (save_path folder t) = None \<Longrightarrow>
   (\<exists>c. files w' (save_path folder t) = Some (File c))
    \<and> OpenWrite (save_path folder t) \<in> set (trace w')"
proof (induction ts arbitrary: w)
  case Nil
  then show ?case by simp
next
  case (Cons a ts)
  let ?p = "save_path folder t"
  from Cons.prems(1) obtain w1 where
    rt: "run_task enc m k (Some folder) a w = (None, w1)"
    and rl: "run_loop enc m k (Some folder) ts w1 = (None, w')"
    by (auto split: prod.splits option.splits)
  show ?case
  proof (cases "save_path folder a = ?p")
    case True
    with Cons.prems(3) have "files w (save_path folder a) = None" by simp
    from run_task_written [OF rt this] True obtain c where
      c: "files w1 ?p = Some (File c)" and o: "OpenWrite ?p \<in> set (trace w1)"
      by auto
    from run_loop_frame [OF rl c] run_loop_trace [OF rl] o show ?thesis by auto
  next
    case False
    then have "t \<noteq> a" by auto
    with Cons.prems(2) have mem: "t \<in> set ts" by simp
    from False have "?p \<noteq> save_path folder a" by simp
    from run_task_other_path [OF rt this] Cons.prems(3) have "files w1 ?p = None" by simp
    from Cons.IH [OF rl mem this] show ?thesis .
  qed
qed

lemma run_loop_None:
  "run_loop enc m k None ts w = (r, w') \<Longrightarrow>
   files w' = files w
    \<and> (\<exists>evs. trace w' = trace w @ evs
          \<and> (\<forall>ev \<in> set evs. \<exists>t split out. ev = Evaluate t split out)
          \<and> (r = None \<longrightarrow> (\<exists>rs. length rs = length (evaluate_calls_of ts)
                \<and> evs = map (\<lambda>((t, s), r). Evaluate t s (Inr r))
                           (zip (evaluate_calls_of ts) rs))))"
proof (induction ts arbitrary: w)
  case Nil
  then show ?case by (simp add: evaluate_calls_of_def)
next
  case (Cons t ts)
  obtain r1 w1 where rt: "run_task enc m k None t w = (r1, w1)"
    by (cases "run_task enc m k None t w")
  from run_task_None [OF rt] obtain evs1 where
    f1: "files w1 = files w" and t1: "trace w1 = trace w @ evs1"
    and e1: "\<forall>ev \<in> set evs1. \<exists>split out. ev = Evaluate t split out"
    and n1: "r1 = None \<longrightarrow> (\<exists>rs. length rs = length (eval_splits (description t))
                \<and> evs1 = map (\<lambda>(s, r). Evaluate t s (Inr r))
                           (zip (eval_splits (description t)) rs))"
    by blast
  show ?case
  proof (cases r1)
    case (Some e)
    with rt Cons.prems have "r = Some e" "w' = w1" by simp_all
    with f1 t1 e1 show ?thesis by auto
  next
    case None
    with rt Cons.prems have rl: "run_loop enc m k None ts w1 = (r, w')" by simp
    from Cons.IH [OF rl] obtain evs2 where
      f2: "files w' = files w1" and t2: "trace w' = trace w1 @ evs2"
      and e2: "\<forall>ev \<in> set evs2. \<exists>t split out. ev = Evaluate t split out"
      and n2: "r = None \<longrightarrow> (\<exists>rs. length rs = length (evaluate_calls_of ts)
                \<and> evs2 = map (\<lambda>((t, s), r). Evaluate t s (Inr r))
                           (zip (evaluate_calls_of ts) rs))"
      by blast
    from n1 None obtain rs1 where
      rs1: "length rs1 = length (eval_splits (description t))"
        "evs1 = map (\<lambda>(s, r). Evaluate t s (Inr r)) (zip (eval_splits (description t)) rs1)"
      by blast
    have evs1': "evs1 = map (\<lambda>((t, s), r). Evaluate t s (Inr r))
                      (zip (map (Pair t) (eval_splits (description t))) rs1)"
      by (simp add: rs1(2) zip_map1 case_prod_unfold)
    have n: "r = None \<longrightarrow> (\<exists>rs. length rs = length (evaluate_calls_of (t # ts))
                \<and> evs1 @ evs2 = map (\<lambda>((t, s), r). Evaluate t s (Inr r))
                           (zip (evaluate_calls_of (t # ts)) rs))"
    proof
      assume "r = None"
      with n2 obtain rs2 where
        rs2: "length rs2 = length (evaluate_calls_of ts)"
          "evs2 = map (\<lambda>((t, s), r). Evaluate t s (Inr r)) (zip (evaluate_calls_of ts) rs2)"
        by blast
      show "\<exists>rs. length rs = length (evaluate_calls_of (t # ts))
                \<and> evs1 @ evs2 = map (\<lambda>((t, s), r). Evaluate t s (Inr r))
                           (zip (evaluate_calls_of (t # ts)) rs)"
        by (rule exI [of _ "rs1 @ rs2"])
          (use rs1(1) rs2 evs1' in \<open>simp add: evaluate_calls_of_def\<close>)
    qed
    have "\<exists>evs. trace w' = trace w @ evs
          \<and> (\<forall>ev \<in> set evs. \<exists>t split out. ev = Evaluate t split out)
          \<and> (r = None \<longrightarrow> (\<exists>rs. length rs = length (evaluate_calls_of (t # ts))
                \<and> evs = map (\<lambda>((t, s), r). Evaluate t s (Inr r))
                           (zip (evaluate_calls_of (t # ts)) rs)))"
      by (rule exI [of _ "evs1 @ evs2"]) (use t1 t2 e1 e2 n in auto)
    with f1 f2 show ?thesis by simp
  qed
qed

subsection \<open>The loaders\<close>



subsection \<open>The examples, evaluated\<close>

lemmas run_eval = run_def create_output_folder_def mkdir_parents_exist_ok_def run_task_def
  results_exist_def save_path_def os_path_join_def startswith_def os_path_exists_def
  save_results_def open_write_def log_def taskA_def taskB_def taskC_def taskF_def taskL_def
  mk_task_def world0_def session_of_def

lemma json_example:
  \<open>json_dump example_encoder [(''validation'', ''v''), (''test'', ''t+'')] 2 True
     = ''{\<newline>  "test": "t+",\<newline>  "validation": "v"\<newline>}''\<close>
  by (simp add: json_dump_def example_encoder_def numeral_2_eq_2)

lemma save_path_examples:
  "save_path ''out'' taskA = ''out/A.json''" "save_path ''out'' taskB = ''out/B.json''"
  "save_path ''out'' taskF = ''out/F.json''"
  "save_path ''results/result'' taskA = ''results/result/A.json''"
  by (simp_all add: run_eval)

lemma run_out_ok:
  "fst (run example_encoder (session_of [taskA, taskB]) () (Given (Some ''out'')) () world0) = None"
  by (simp add: run_eval)

lemma run_none_ok:
  "fst (run example_encoder (session_of [taskA, taskB]) () (Given None) () world0) = None"
  by (simp add: run_eval)

lemma run_default_ok:
  "fst (run example_encoder (session_of [taskA]) () Default () world0) = None"
  by (simp add: run_eval)


section \<open>The session and its runs\<close>

text \<open>
  C3. A run with an output folder (given, or the default) that returned normally is
  followed by a second run over the same tasks and the same folder, with any model and
  keyword arguments. The second run returns normally; it checks the folder and then
  the path of each task, finds it, and goes on: its events are one \<open>Mkdir\<close> and one
  \<open>PathExists\<close> per task, so no \<open>evaluate\<close> is called and no file is opened. Every file
  and the state of the collaborators are what they were after the first run. In any
  world, a task whose path exists is skipped: the body of the loop only records the
  check.
\<close>

theorem run_twice:
  assumes "output_folder_of output_folder = Some folder"
    and "run enc self model output_folder kwargs w = (None, w1)"
  shows "(\<exists>w2. run enc' self model' output_folder kwargs' w1 = (None, w2)
      \<and> files w2 = files w1
      \<and> state w2 = state w1
      \<and> trace w2 = trace w1 @ Mkdir folder
          # map (\<lambda>t. PathExists (save_path folder t)) (self_tasks self))
    \<and> (\<forall>t w. os_path_exists (files w) (save_path folder t) \<longrightarrow>
          run_task enc' model' kwargs' (Some folder) t w
            = (None, log (PathExists (save_path folder t)) w))"
proof -
  from assms obtain wa where
    cf: "create_output_folder (Some folder) w = Inr wa"
    and rl: "run_loop enc model kwargs (Some folder) (self_tasks self) wa = (None, w1)"
    by (auto simp: run_def split: sum.splits)
  from cf have "files wa folder = Some Dir"
    by (auto simp: create_output_folder_def mkdir_parents_exist_ok_def
        split: option.splits entry.splits)
  from run_loop_frame [OF rl this] have dir: "files w1 folder = Some Dir" .
  then have cf2: "create_output_folder (Some folder) w1 = Inr (log (Mkdir folder) w1)"
    by (simp add: create_output_folder_def mkdir_parents_exist_ok_def)
  have "\<forall>t \<in> set (self_tasks self).
          os_path_exists (files (log (Mkdir folder) w1)) (save_path folder t)"
    using run_loop_exists_after [OF rl] by simp
  from run_loop_all_exist [OF this] cf2 assms(1)
  have "run enc' self model' output_folder kwargs' w1
     = (None, w1\<lparr>trace := trace w1 @ Mkdir folder
                  # map (\<lambda>t. PathExists (save_path folder t)) (self_tasks self)\<rparr>)"
    by (simp add: run_def log_def)
  then have "\<exists>w2. run enc' self model' output_folder kwargs' w1 = (None, w2)
      \<and> files w2 = files w1
      \<and> state w2 = state w1
      \<and> trace w2 = trace w1 @ Mkdir folder
          # map (\<lambda>t. PathExists (save_path folder t)) (self_tasks self)"
    by simp
  then show ?thesis by (simp add: run_task_skip)
qed

theorem run_twice_witness:
  "run example_encoder (session_of [taskA, taskB]) () (Given (Some ''out'')) () world0
     = (None, snd (run example_encoder (session_of [taskA, taskB]) () (Given (Some ''out'')) ()
                    world0))
   \<and> (\<exists>w2. run example_encoder (session_of [taskA, taskB]) () (Given (Some ''out'')) ()
          (snd (run example_encoder (session_of [taskA, taskB]) () (Given (Some ''out'')) ()
                 world0))
          = (None, w2)
        \<and> files w2 = files (snd (run example_encoder (session_of [taskA, taskB]) ()
                                (Given (Some ''out'')) () world0))
        \<and> state w2 = state (snd (run example_encoder (session_of [taskA, taskB]) ()
                                (Given (Some ''out'')) () world0))
        \<and> trace w2 = trace (snd (run example_encoder (session_of [taskA, taskB]) ()
                                (Given (Some ''out'')) () world0))
            @ [Mkdir ''out'', PathExists ''out/A.json'', PathExists ''out/B.json''])"
proof -
  let ?w1 = "snd (run example_encoder (session_of [taskA, taskB]) () (Given (Some ''out'')) ()
                   world0)"
  have h: "run example_encoder (session_of [taskA, taskB]) () (Given (Some ''out'')) () world0
     = (None, ?w1)"
    using run_out_ok by (simp add: prod_eq_iff)
  have o: "output_folder_of (Given (Some ''out'')) = Some ''out''" by simp
  have t: "self_tasks (session_of [taskA, taskB]) = [taskA, taskB]" by (simp add: session_of_def)
  from conjunct1 [OF run_twice [OF o h, of example_encoder "()" "()"]] h show ?thesis
    by (simp add: t save_path_examples)
qed

text \<open>
  C5. The tasks before \<open>task\<close> have run, \<open>task\<close> is not skipped, and one of its calls of
  \<open>evaluate\<close> raises \<open>e\<close>. Then \<open>run\<close> returns \<open>e\<close> in the world of the raise: no task
  after it is touched. The files are those left by the tasks before it, there is no
  file at the path of \<open>task\<close>, and what \<open>task\<close> added to the trace are calls of
  \<open>evaluate\<close> only: no file was opened for it.
\<close>

theorem run_evaluate_raises:
  assumes "self_tasks self = before @ task # rest"
    and "create_output_folder (output_folder_of output_folder) w0 = Inr w"
    and "run_loop enc model kwargs (output_folder_of output_folder) before w = (None, w1)"
    and "results_exist (output_folder_of output_folder) task w1 = (False, w1')"
    and "evaluate_splits model kwargs task (eval_splits (description task)) [] w1' = (Inl e, w2)"
  shows "run enc self model output_folder kwargs w0 = (Some e, w2)
    \<and> files w2 = files w1
    \<and> (\<forall>folder. output_folder_of output_folder = Some folder \<longrightarrow>
          files w2 (save_path folder task) = None)
    \<and> (\<exists>evs. trace w2 = trace w1' @ evs
          \<and> (\<forall>ev \<in> set evs. \<exists>split out. ev = Evaluate task split out))"
proof -
  have rt: "run_task enc model kwargs (output_folder_of output_folder) task w1 = (Some e, w2)"
    using assms(4,5) by (simp add: run_task_def)
  have a: "run enc self model output_folder kwargs w0 = (Some e, w2)"
    using assms(1,2,3) rt by (simp add: run_def run_loop_append)
  have b: "files w2 = files w1"
    using evaluate_splits_files [OF assms(5)] results_exist_files [OF assms(4)] by simp
  have c: "files w2 (save_path folder task) = None"
    if "output_folder_of output_folder = Some folder" for folder
    using results_exist_False [of folder task w1 w1'] assms(4) that b by simp
  from evaluate_splits_Inl [OF assms(5)] obtain dn split rst rs where
    tr: "trace w2 = trace w1' @ map (\<lambda>(s, r). Evaluate task s (Inr r)) (zip dn rs)
           @ [Evaluate task split (Inl e)]"
    by blast
  have d: "\<exists>evs. trace w2 = trace w1' @ evs
          \<and> (\<forall>ev \<in> set evs. \<exists>split out. ev = Evaluate task split out)"
    by (rule exI [of _ "map (\<lambda>(s, r). Evaluate task s (Inr r)) (zip dn rs)
           @ [Evaluate task split (Inl e)]"]) (use tr in auto)
  from a b c d show ?thesis by blast
qed

theorem run_evaluate_raises_witness:
  "fst (run example_encoder (session_of [taskA, taskF, taskB]) () (Given (Some ''out'')) () world0)
     = Some (Raised ''boom'')
   \<and> files (snd (run example_encoder (session_of [taskA, taskF, taskB]) ()
        (Given (Some ''out'')) () world0)) ''out/F.json'' = None"
proof -
  define wa where "wa = log (Mkdir ''out'') world0\<lparr>files := [''out'' \<mapsto> Dir]\<rparr>"
  define w1 where "w1 = snd (run_loop example_encoder () () (Some ''out'') [taskA] wa)"
  define w1' where "w1' = log (PathExists ''out/F.json'') w1"
  define w2 where "w2 = snd (evaluate_splits () () taskF (eval_splits (description taskF)) [] w1')"
  have h1: "self_tasks (session_of [taskA, taskF, taskB]) = [taskA] @ taskF # [taskB]"
    by (simp add: session_of_def)
  have h2: "create_output_folder (output_folder_of (Given (Some ''out''))) world0 = Inr wa"
    by (simp add: wa_def create_output_folder_def mkdir_parents_exist_ok_def world0_def)
  have "fst (run_loop example_encoder () () (Some ''out'') [taskA] wa) = None"
    by (simp add: wa_def run_eval)
  then have h3: "run_loop example_encoder () () (output_folder_of (Given (Some ''out''))) [taskA] wa
      = (None, w1)"
    by (simp add: w1_def prod_eq_iff)
  have "files w1 ''out/F.json'' = None"
    by (simp add: w1_def wa_def run_eval)
  then have h4: "results_exist (output_folder_of (Given (Some ''out''))) taskF w1 = (False, w1')"
    by (simp add: results_exist_def w1'_def save_path_examples os_path_exists_def)
  have "fst (evaluate_splits () () taskF (eval_splits (description taskF)) [] w1')
      = Inl (Raised ''boom'')"
    by (simp add: taskF_def mk_task_def)
  then have h5: "evaluate_splits () () taskF (eval_splits (description taskF)) [] w1'
      = (Inl (Raised ''boom''), w2)"
    by (simp add: w2_def prod_eq_iff)
  note r = run_evaluate_raises [OF h1 h2 h3 h4 h5]
  have a: "run example_encoder (session_of [taskA, taskF, taskB]) () (Given (Some ''out'')) ()
      world0 = (Some (Raised ''boom''), w2)"
    by (rule conjunct1 [OF r])
  have "\<forall>folder. output_folder_of (Given (Some ''out'')) = Some folder \<longrightarrow>
      files w2 (save_path folder taskF) = None"
    by (rule conjunct1 [OF conjunct2 [OF conjunct2 [OF r]]])
  then have b: "files w2 ''out/F.json'' = None"
    by (simp add: save_path_examples)
  from a b show ?thesis by simp
qed



text \<open>
  C7. With \<open>output_folder=None\<close>, however \<open>run\<close> ends, the files are untouched and
  every event of the run is a call of \<open>evaluate\<close>: no directory is made, no path is
  checked, no file is opened. When the run returns normally, its events are exactly one
  call for each split of each selected task, in order, each returning a value; this
  holds from any world, so for every run.
\<close>

theorem run_without_output_folder:
  assumes "run enc self model (Given None) kwargs w = (r, w')"
  shows "files w' = files w
    \<and> (\<exists>evs. trace w' = trace w @ evs
          \<and> (\<forall>ev \<in> set evs. \<exists>t split out. ev = Evaluate t split out)
          \<and> (r = None \<longrightarrow> (\<exists>rs. length rs = length (evaluate_calls_of (self_tasks self))
                \<and> evs = map (\<lambda>((t, s), r). Evaluate t s (Inr r))
                           (zip (evaluate_calls_of (self_tasks self)) rs))))"
proof -
  from assms have "run_loop enc model kwargs None (self_tasks self) w = (r, w')"
    by (simp add: run_def create_output_folder_def)
  from run_loop_None [OF this] show ?thesis .
qed

theorem run_without_output_folder_witness:
  "files (snd (run example_encoder (session_of [taskA, taskB]) () (Given None) () world0))
     = files world0
   \<and> (\<exists>rs. length rs = 3
        \<and> trace (snd (run example_encoder (session_of [taskA, taskB]) () (Given None) () world0))
          = map (\<lambda>((t, s), r). Evaluate t s (Inr r))
              (zip [(taskA, ''test''), (taskB, ''test''), (taskB, ''validation'')] rs))"
proof -
  let ?w = "snd (run example_encoder (session_of [taskA, taskB]) () (Given None) () world0)"
  have h: "run example_encoder (session_of [taskA, taskB]) () (Given None) () world0 = (None, ?w)"
    using run_none_ok by (simp add: prod_eq_iff)
  have c: "evaluate_calls_of (self_tasks (session_of [taskA, taskB]))
      = [(taskA, ''test''), (taskB, ''test''), (taskB, ''validation'')]"
    by (simp add: evaluate_calls_of_def session_of_def description_examples)
  have t: "trace world0 = []" by (simp add: world0_def)
  from run_without_output_folder [OF h] obtain rs where
    f: "files ?w = files world0"
    and rs: "length rs = length [(taskA, ''test''), (taskB, ''test''), (taskB, ''validation'')]"
      "trace ?w = map (\<lambda>((t, s), r). Evaluate t s (Inr r))
              (zip [(taskA, ''test''), (taskB, ''test''), (taskB, ''validation'')] rs)"
    unfolding c t by auto
  from rs have "length rs = 3
        \<and> trace ?w = map (\<lambda>((t, s), r). Evaluate t s (Inr r))
              (zip [(taskA, ''test''), (taskB, ''test''), (taskB, ''validation'')] rs)"
    by simp
  then have "\<exists>rs. length rs = 3
        \<and> trace ?w = map (\<lambda>((t, s), r). Evaluate t s (Inr r))
              (zip [(taskA, ''test''), (taskB, ''test''), (taskB, ''validation'')] rs)"
    by (rule exI)
  with f show ?thesis by (rule conjI)
qed



text \<open>
  C10. Left out, \<open>output_folder\<close> is \<open>results/result\<close>: the run is the run with that
  folder given. An argument stands for no folder only when it is \<open>None\<close>, given. When
  the run with the default returns normally, \<open>results/result\<close> is a directory, the first
  event of the run is its creation, the path of every task under it was checked and
  exists, and a path that did not exist before the run now holds a file that the run
  opened for writing.
\<close>

theorem run_default_output_folder:
  "output_folder_of Default = Some ''results/result''
   \<and> (output_folder_of arg = None) = (arg = Given None)
   \<and> run enc self model Default kwargs w
       = run enc self model (Given (Some ''results/result'')) kwargs w
   \<and> (run enc self model Default kwargs w = (None, w') \<longrightarrow>
        files w' ''results/result'' = Some Dir
      \<and> (\<exists>evs. trace w' = trace w @ Mkdir ''results/result'' # evs)
      \<and> (\<forall>t \<in> set (self_tasks self).
            PathExists (save_path ''results/result'' t) \<in> set (trace w')
          \<and> os_path_exists (files w') (save_path ''results/result'' t)
          \<and> (\<not> os_path_exists (files w) (save_path ''results/result'' t) \<longrightarrow>
               (\<exists>c. files w' (save_path ''results/result'' t) = Some (File c))
             \<and> OpenWrite (save_path ''results/result'' t) \<in> set (trace w'))))"
proof -
  let ?f = "''results/result''"
  have a: "output_folder_of Default = Some ?f" by simp
  have b: "(output_folder_of arg = None) = (arg = Given None)"
    by (cases arg) auto
  have c: "run enc self model Default kwargs w = run enc self model (Given (Some ?f)) kwargs w"
    by (simp add: run_def split: sum.splits)
  have d: "files w' ?f = Some Dir
      \<and> (\<exists>evs. trace w' = trace w @ Mkdir ?f # evs)
      \<and> (\<forall>t \<in> set (self_tasks self).
            PathExists (save_path ?f t) \<in> set (trace w')
          \<and> os_path_exists (files w') (save_path ?f t)
          \<and> (\<not> os_path_exists (files w) (save_path ?f t) \<longrightarrow>
               (\<exists>c. files w' (save_path ?f t) = Some (File c))
             \<and> OpenWrite (save_path ?f t) \<in> set (trace w')))"
    if run: "run enc self model Default kwargs w = (None, w')"
  proof -
    from run obtain wa where
      cf: "create_output_folder (Some ?f) w = Inr wa"
      and rl: "run_loop enc model kwargs (Some ?f) (self_tasks self) wa = (None, w')"
      by (auto simp: run_def split: sum.splits)
    from cf have dir: "files wa ?f = Some Dir" and tr: "trace wa = trace w @ [Mkdir ?f]"
      and other: "\<And>p. p \<noteq> ?f \<Longrightarrow> files wa p = files w p"
      by (auto simp: create_output_folder_def mkdir_parents_exist_ok_def
          split: option.splits entry.splits)
    have d1: "files w' ?f = Some Dir" by (rule run_loop_frame [OF rl dir])
    from run_loop_trace [OF rl] tr have d2: "\<exists>evs. trace w' = trace w @ Mkdir ?f # evs"
      by auto
    have d3: "PathExists (save_path ?f t) \<in> set (trace w')
          \<and> os_path_exists (files w') (save_path ?f t)
          \<and> (\<not> os_path_exists (files w) (save_path ?f t) \<longrightarrow>
               (\<exists>c. files w' (save_path ?f t) = Some (File c))
             \<and> OpenWrite (save_path ?f t) \<in> set (trace w'))"
      if mem: "t \<in> set (self_tasks self)" for t
    proof -
      have "files wa (save_path ?f t) = files w (save_path ?f t)"
        by (rule other [OF save_path_default_ne])
      then have "\<not> os_path_exists (files w) (save_path ?f t) \<longrightarrow>
          files wa (save_path ?f t) = None"
        by (simp add: os_path_exists_iff)
      with run_loop_written [OF rl mem] run_loop_checks [OF rl mem]
        run_loop_exists_after [OF rl mem]
      show ?thesis by auto
    qed
    from d1 d2 d3 show ?thesis by auto
  qed
  show ?thesis
    by (rule conjI [OF a], rule conjI [OF b], rule conjI [OF c], rule impI, rule d)
qed

theorem run_default_output_folder_witness:
  "output_folder_of Default = Some ''results/result''
   \<and> files (snd (run example_encoder (session_of [taskA]) () Default () world0)) ''results/result''
       = Some Dir
   \<and> PathExists ''results/result/A.json''
       \<in> set (trace (snd (run example_encoder (session_of [taskA]) () Default () world0)))
   \<and> OpenWrite ''results/result/A.json''
       \<in> set (trace (snd (run example_encoder (session_of [taskA]) () Default () world0)))"
proof -
  let ?w = "snd (run example_encoder (session_of [taskA]) () Default () world0)"
  have h: "run example_encoder (session_of [taskA]) () Default () world0 = (None, ?w)"
    using run_default_ok by (simp add: prod_eq_iff)
  have n: "\<not> os_path_exists (files world0) (save_path ''results/result'' taskA)"
    by (simp add: os_path_exists_def world0_def)
  have t: "self_tasks (session_of [taskA]) = [taskA]" by (simp add: session_of_def)
  note r = run_default_output_folder
    [of "Given None" example_encoder "session_of [taskA]" "()" "()" world0 ?w]
  have a: "output_folder_of Default = Some ''results/result''"
    by (rule conjunct1 [OF r])
  from mp [OF conjunct2 [OF conjunct2 [OF conjunct2 [OF r]]] h] n
  have "files ?w ''results/result'' = Some Dir
    \<and> PathExists ''results/result/A.json'' \<in> set (trace ?w)
    \<and> OpenWrite ''results/result/A.json'' \<in> set (trace ?w)"
    by (simp add: t save_path_examples)
  with a show ?thesis by (rule conjI)
qed

end
